theory Spec2Isabelle
  imports Complex_Main "HOL-Library.Product_Lexorder"
begin

section \<open>Python floats\<close>

text \<open>
  A Python float is modelled as an exact real number extended by the two infinities and
  the not-a-number value. Rounding, overflow to infinity and underflow to zero are not
  modelled, and the two signed zeros are one value (no operation used by the program
  tells them apart: a division by either raises).
\<close>

datatype pyfloat = NaN | PInf | NInf | Fin real

definition isnan :: "pyfloat \<Rightarrow> bool" where
  "isnan x = (x = NaN)"

definition isinf :: "pyfloat \<Rightarrow> bool" where
  "isinf x = (x = PInf \<or> x = NInf)"

text \<open>Python's \<^verbatim>\<open>==\<close> on floats: not-a-number equals nothing.\<close>

definition feq :: "pyfloat \<Rightarrow> pyfloat \<Rightarrow> bool" where
  "feq a b = (if isnan a \<or> isnan b then False else a = b)"

fun fneg :: "pyfloat \<Rightarrow> pyfloat" where
  "fneg NaN = NaN"
| "fneg PInf = NInf"
| "fneg NInf = PInf"
| "fneg (Fin a) = Fin (- a)"

fun fabs :: "pyfloat \<Rightarrow> pyfloat" where
  "fabs NaN = NaN"
| "fabs PInf = PInf"
| "fabs NInf = PInf"
| "fabs (Fin a) = Fin \<bar>a\<bar>"

fun fadd :: "pyfloat \<Rightarrow> pyfloat \<Rightarrow> pyfloat" where
  "fadd (Fin a) (Fin b) = Fin (a + b)"
| "fadd NaN b = NaN"
| "fadd a NaN = NaN"
| "fadd PInf NInf = NaN"
| "fadd NInf PInf = NaN"
| "fadd PInf b = PInf"
| "fadd NInf b = NInf"
| "fadd (Fin a) PInf = PInf"
| "fadd (Fin a) NInf = NInf"

definition fsub :: "pyfloat \<Rightarrow> pyfloat \<Rightarrow> pyfloat" where
  "fsub a b = fadd a (fneg b)"

text \<open>The sign of a product or quotient with an infinity.\<close>

definition signed_inf :: "bool \<Rightarrow> pyfloat" where
  "signed_inf positive = (if positive then PInf else NInf)"

fun fmul :: "pyfloat \<Rightarrow> pyfloat \<Rightarrow> pyfloat" where
  "fmul (Fin a) (Fin b) = Fin (a * b)"
| "fmul NaN b = NaN"
| "fmul a NaN = NaN"
| "fmul PInf PInf = PInf"
| "fmul PInf NInf = NInf"
| "fmul NInf PInf = NInf"
| "fmul NInf NInf = PInf"
| "fmul PInf (Fin b) = (if b = 0 then NaN else signed_inf (0 < b))"
| "fmul NInf (Fin b) = (if b = 0 then NaN else signed_inf (b < 0))"
| "fmul (Fin a) PInf = (if a = 0 then NaN else signed_inf (0 < a))"
| "fmul (Fin a) NInf = (if a = 0 then NaN else signed_inf (a < 0))"

text \<open>Python's \<^verbatim>\<open><=\<close> on floats: false as soon as one side is not-a-number.\<close>

fun fle :: "pyfloat \<Rightarrow> pyfloat \<Rightarrow> bool" where
  "fle (Fin a) (Fin b) = (a \<le> b)"
| "fle NaN b = False"
| "fle a NaN = False"
| "fle NInf b = True"
| "fle a PInf = True"
| "fle PInf b = False"
| "fle (Fin a) NInf = False"

section \<open>Errors\<close>

text \<open>The raw record a \<^verbatim>\<open>csv.DictReader\<close> yields for the four required columns;
  a field the line does not have is Python's \<^verbatim>\<open>None\<close>.\<close>

record csv_row =
  Date :: "string option"
  PV :: "string option"
  EV :: "string option"
  AC :: "string option"

text \<open>
  Every exception the program can raise is a value. The payloads are what the message of
  the exception is built from:
  \<^item> \<open>FloatValueError s\<close>: \<^verbatim>\<open>float(s)\<close> failed, "could not convert string to float: s";
  \<^item> \<open>StrptimeError\<close>: \<^verbatim>\<open>datetime.strptime\<close> failed (caught by the date parser);
  \<^item> \<open>DateValueError d\<close>: "Unrecognized Date format: 'd'. Use YYYY-MM-DD (recommended).";
  \<^item> \<open>AttributeError\<close>: \<^verbatim>\<open>None.strip()\<close>;
  \<^item> \<open>RowParseError i e\<close>: "Error parsing row i: e";
  \<^item> \<open>RowNaNError i r\<close>: "Row i has empty/non-numeric PV/EV/AC: r".
\<close>

datatype error =
    ZeroDivisionError
  | FloatValueError string
  | StrptimeError
  | DateValueError string
  | AttributeError
  | RowParseError nat error
  | RowNaNError nat csv_row

section \<open>The ratio helper\<close>

text \<open>Python's true division of floats raises on a zero divisor, whatever the dividend.\<close>

fun fdiv :: "pyfloat \<Rightarrow> pyfloat \<Rightarrow> error + pyfloat" where
  "fdiv a (Fin b) =
     (if b = 0 then Inl ZeroDivisionError
      else Inr (case a of
                  NaN \<Rightarrow> NaN
                | PInf \<Rightarrow> signed_inf (0 < b)
                | NInf \<Rightarrow> signed_inf (b < 0)
                | Fin x \<Rightarrow> Fin (x / b)))"
| "fdiv a NaN = Inr NaN"
| "fdiv a PInf = Inr (case a of Fin x \<Rightarrow> Fin 0 | _ \<Rightarrow> NaN)"
| "fdiv a NInf = Inr (case a of Fin x \<Rightarrow> Fin 0 | _ \<Rightarrow> NaN)"

text \<open>\<^verbatim>\<open>math.isclose(a, b)\<close> with its default tolerances
  \<^verbatim>\<open>rel_tol=1e-09\<close> and \<^verbatim>\<open>abs_tol=0.0\<close>.\<close>

definition rel_tol :: real where
  "rel_tol = 1 / 10 ^ 9"

definition abs_tol :: real where
  "abs_tol = 0"

definition isclose :: "pyfloat \<Rightarrow> pyfloat \<Rightarrow> bool" where
  "isclose a b =
     (if feq a b then True
      else if isinf a \<or> isinf b then False
      else (let diff = fabs (fsub b a)
            in fle diff (fabs (fmul (Fin rel_tol) b))
               \<or> fle diff (fabs (fmul (Fin rel_tol) a))
               \<or> fle diff (Fin abs_tol)))"

definition safe_div :: "pyfloat \<Rightarrow> pyfloat \<Rightarrow> error + pyfloat" where
  "safe_div a b =
     (if feq b (Fin 0) \<or> isclose b (Fin 0) then Inr NaN else fdiv a b)"

section \<open>Dates\<close>

record datetime =
  year :: nat
  month :: nat
  day :: nat

definition digit_char :: "nat \<Rightarrow> char" where
  "digit_char n = char_of (48 + n mod 10)"

text \<open>\<^verbatim>\<open>strftime("%Y-%m-%d")\<close>: the year on four digits, month and day on two.\<close>

definition strftime :: "datetime \<Rightarrow> string" where
  "strftime dt =
     [digit_char (year dt div 1000), digit_char (year dt div 100),
      digit_char (year dt div 10), digit_char (year dt), CHR ''-'',
      digit_char (month dt div 10), digit_char (month dt), CHR ''-'',
      digit_char (day dt div 10), digit_char (day dt)]"

section \<open>The EVM engine\<close>

record EVMRow =
  date :: datetime
  pv :: pyfloat
  ev :: pyfloat
  ac :: pyfloat

text \<open>One dictionary of the detail table, with the keys in the order the source writes them.\<close>

record detail =
  Date :: string
  PV_period :: pyfloat
  EV_period :: pyfloat
  AC_period :: pyfloat
  PV_cum :: pyfloat
  EV_cum :: pyfloat
  AC_cum :: pyfloat
  SV :: pyfloat
  CV :: pyfloat
  SPI :: pyfloat
  CPI :: pyfloat

text \<open>The summary dictionary.\<close>

record summary =
  BAC :: pyfloat
  BAC_source :: string
  PV_cum :: pyfloat
  EV_cum :: pyfloat
  AC_cum :: pyfloat
  SPI :: pyfloat
  CPI :: pyfloat
  SV :: pyfloat
  CV :: pyfloat
  EAC_CPI :: pyfloat
  ETC_CPI :: pyfloat
  VAC_CPI :: pyfloat
  EAC_CPI_SPI :: pyfloat
  ETC_CPI_SPI :: pyfloat
  VAC_CPI_SPI :: pyfloat

text \<open>The loop of \<^verbatim>\<open>compute_evm\<close> over the rows: the three running totals and the
  list \<open>out\<close> built so far are the state.\<close>

fun evm_loop ::
  "EVMRow list \<Rightarrow> pyfloat \<Rightarrow> pyfloat \<Rightarrow> pyfloat \<Rightarrow> detail list \<Rightarrow> error + detail list" where
  "evm_loop [] cum_pv cum_ev cum_ac out = Inr out"
| "evm_loop (r # rs) cum_pv0 cum_ev0 cum_ac0 out =
     (let cum_pv = fadd cum_pv0 (pv r);
          cum_ev = fadd cum_ev0 (ev r);
          cum_ac = fadd cum_ac0 (ac r);
          sv = fsub cum_ev cum_pv;
          cv = fsub cum_ev cum_ac
      in case safe_div cum_ev cum_pv of
           Inl e \<Rightarrow> Inl e
         | Inr spi \<Rightarrow>
             (case safe_div cum_ev cum_ac of
                Inl e \<Rightarrow> Inl e
              | Inr cpi \<Rightarrow>
                  evm_loop rs cum_pv cum_ev cum_ac
                    (out @ [\<lparr>detail.Date = strftime (date r),
                             PV_period = pv r,
                             EV_period = ev r,
                             AC_period = ac r,
                             detail.PV_cum = cum_pv,
                             detail.EV_cum = cum_ev,
                             detail.AC_cum = cum_ac,
                             detail.SV = sv,
                             detail.CV = cv,
                             detail.SPI = spi,
                             detail.CPI = cpi\<rparr>])))"

text \<open>\<^verbatim>\<open>last.get(key, default)\<close>, where \<open>last\<close> is the final dictionary of \<open>out\<close>, or
  the empty dictionary (here \<open>None\<close>) when \<open>out\<close> is empty. The values read are floats
  already, so the \<^verbatim>\<open>float(...)\<close> around the call returns them unchanged.\<close>

definition last_get :: "detail option \<Rightarrow> (detail \<Rightarrow> pyfloat) \<Rightarrow> pyfloat \<Rightarrow> pyfloat" where
  "last_get lst key dflt = (case lst of None \<Rightarrow> dflt | Some d \<Rightarrow> key d)"

definition compute_evm ::
  "EVMRow list \<Rightarrow> pyfloat option \<Rightarrow> error + (detail list \<times> summary)" where
  "compute_evm rows bac =
     (case evm_loop rows (Fin 0) (Fin 0) (Fin 0) [] of
        Inl e \<Rightarrow> Inl e
      | Inr out \<Rightarrow>
          (let inferred_bac = (if out \<noteq> [] then detail.PV_cum (last out) else Fin 0);
               bac_final = (case bac of Some b \<Rightarrow> b | None \<Rightarrow> inferred_bac);
               lst = (if out \<noteq> [] then Some (last out) else None);
               cpi_last = last_get lst detail.CPI NaN;
               spi_last = last_get lst detail.SPI NaN;
               ac_last = last_get lst detail.AC_cum (Fin 0);
               ev_last = last_get lst detail.EV_cum (Fin 0)
           in case (if \<not> isnan cpi_last then safe_div bac_final cpi_last else Inr NaN) of
                Inl e \<Rightarrow> Inl e
              | Inr eac_cpi \<Rightarrow>
                  (let denom = (if \<not> isnan cpi_last \<and> \<not> isnan spi_last
                                then fmul cpi_last spi_last else NaN)
                   in case (if \<not> isnan denom
                            then (case safe_div (fsub bac_final ev_last) denom of
                                    Inl e \<Rightarrow> Inl e
                                  | Inr q \<Rightarrow> Inr (fadd ac_last q))
                            else Inr NaN) of
                        Inl e \<Rightarrow> Inl e
                      | Inr eac_cpi_spi \<Rightarrow>
                          (let etc_cpi = (if \<not> isnan eac_cpi then fsub eac_cpi ac_last else NaN);
                               etc_cpi_spi = (if \<not> isnan eac_cpi_spi
                                              then fsub eac_cpi_spi ac_last else NaN);
                               vac_cpi = (if \<not> isnan eac_cpi then fsub bac_final eac_cpi else NaN);
                               vac_cpi_spi = (if \<not> isnan eac_cpi_spi
                                              then fsub bac_final eac_cpi_spi else NaN)
                           in Inr (out,
                                   \<lparr>BAC = bac_final,
                                    BAC_source = (if bac \<noteq> None then ''user''
                                                  else ''inferred_from_last_PV_cum''),
                                    PV_cum = last_get lst detail.PV_cum (Fin 0),
                                    EV_cum = last_get lst detail.EV_cum (Fin 0),
                                    AC_cum = last_get lst detail.AC_cum (Fin 0),
                                    SPI = last_get lst detail.SPI NaN,
                                    CPI = last_get lst detail.CPI NaN,
                                    SV = last_get lst detail.SV NaN,
                                    CV = last_get lst detail.CV NaN,
                                    EAC_CPI = eac_cpi,
                                    ETC_CPI = etc_cpi,
                                    VAC_CPI = vac_cpi,
                                    EAC_CPI_SPI = eac_cpi_spi,
                                    ETC_CPI_SPI = etc_cpi_spi,
                                    VAC_CPI_SPI = vac_cpi_spi\<rparr>)))))"

section \<open>Strings\<close>

text \<open>
  A string is a list of characters, each standing for one code point below 256.
  \<open>is_space\<close> is \<^verbatim>\<open>str.isspace\<close> on these code points, \<open>strip\<close> is
  \<^verbatim>\<open>str.strip()\<close>, \<open>rfind\<close> and \<open>replace\<close> are \<^verbatim>\<open>str.rfind\<close> and
  \<^verbatim>\<open>str.replace\<close> for a one-character pattern.
\<close>

definition is_space :: "char \<Rightarrow> bool" where
  "is_space c = ((of_char c :: nat) \<in> {9, 10, 11, 12, 13, 28, 29, 30, 31, 32, 133, 160})"

definition is_digit :: "char \<Rightarrow> bool" where
  "is_digit c = (48 \<le> (of_char c :: nat) \<and> (of_char c :: nat) \<le> 57)"

definition strip :: "string \<Rightarrow> string" where
  "strip s = rev (dropWhile is_space (rev (dropWhile is_space s)))"

fun rfind_from :: "string \<Rightarrow> char \<Rightarrow> int \<Rightarrow> int \<Rightarrow> int" where
  "rfind_from [] c i found = found"
| "rfind_from (x # xs) c i found = rfind_from xs c (i + 1) (if x = c then i else found)"

definition rfind :: "string \<Rightarrow> char \<Rightarrow> int" where
  "rfind s c = rfind_from s c 0 (- 1)"

definition replace :: "string \<Rightarrow> char \<Rightarrow> string \<Rightarrow> string" where
  "replace s old new = concat (map (\<lambda>x. if x = old then new else [x]) s)"

text \<open>\<^verbatim>\<open>str(x)\<close> of a field: the text itself, or "None".\<close>

definition py_str :: "string option \<Rightarrow> string" where
  "py_str x = (case x of None \<Rightarrow> ''None'' | Some s \<Rightarrow> s)"

section \<open>Converting text to a float\<close>

text \<open>
  \<^verbatim>\<open>float(s)\<close> for a string: underscores may stand between two digits and nowhere
  else; surrounding whitespace is dropped; what remains is an optional sign followed by a
  decimal number with an optional exponent, or by "inf", "infinity" or "nan" in any case.
  Anything else raises \<^verbatim>\<open>ValueError\<close>. The whitespace \<^verbatim>\<open>float\<close> drops is the
  white space of C (tab, line feed, vertical tab, form feed, carriage return, blank) and
  the two space characters from 128 to 255, which it first turns into blanks; the four
  separator characters 28 to 31, which \<^verbatim>\<open>str.strip()\<close> drops, are not.
\<close>

definition is_float_space :: "char \<Rightarrow> bool" where
  "is_float_space c = ((of_char c :: nat) \<in> {9, 10, 11, 12, 13, 32, 133, 160})"

definition float_strip :: "string \<Rightarrow> string" where
  "float_strip s = rev (dropWhile is_float_space (rev (dropWhile is_float_space s)))"

fun remove_underscores :: "char \<Rightarrow> string \<Rightarrow> string option" where
  "remove_underscores prev [] = (if prev = CHR ''_'' then None else Some [])"
| "remove_underscores prev (c # cs) =
     (if c = CHR ''_''
      then (if is_digit prev then remove_underscores c cs else None)
      else if prev = CHR ''_'' \<and> \<not> is_digit c then None
      else map_option ((#) c) (remove_underscores c cs))"

definition digits_val :: "string \<Rightarrow> nat" where
  "digits_val ds = foldl (\<lambda>n c. 10 * n + (of_char c - 48)) 0 ds"

definition parse_sign :: "string \<Rightarrow> bool \<times> string" where
  "parse_sign s =
     (case s of
        [] \<Rightarrow> (False, [])
      | c # cs \<Rightarrow>
          if c = CHR ''-'' then (True, cs)
          else if c = CHR ''+'' then (False, cs)
          else (False, s))"

text \<open>The exponent part: consumed only when at least one digit follows the optional sign.\<close>

definition parse_exponent :: "string \<Rightarrow> int \<times> string" where
  "parse_exponent s =
     (case s of
        [] \<Rightarrow> (0, [])
      | c # cs \<Rightarrow>
          if c = CHR ''e'' \<or> c = CHR ''E''
          then (let (negative, r) = parse_sign cs;
                    ds = takeWhile is_digit r
                in if ds = [] then (0, s)
                   else (if negative then - int (digits_val ds) else int (digits_val ds),
                         dropWhile is_digit r))
          else (0, s))"

definition scale10 :: "nat \<Rightarrow> int \<Rightarrow> real" where
  "scale10 m e = (if 0 \<le> e then real m * 10 ^ nat e else real m / 10 ^ nat (- e))"

text \<open>An unsigned decimal number: its value and the text after it; \<open>None\<close> when there is
  no digit before or after the point.\<close>

definition parse_number :: "string \<Rightarrow> (real \<times> string) option" where
  "parse_number s =
     (let ip = takeWhile is_digit s;
          r1 = dropWhile is_digit s;
          (fp, r2) = (case r1 of
                        [] \<Rightarrow> ([], [])
                      | c # cs \<Rightarrow>
                          if c = CHR ''.''
                          then (takeWhile is_digit cs, dropWhile is_digit cs)
                          else ([], r1))
      in if ip = [] \<and> fp = [] then None
         else (let (ex, r3) = parse_exponent r2
               in Some (scale10 (digits_val (ip @ fp)) (ex - int (length fp)), r3)))"

definition lower :: "char \<Rightarrow> char" where
  "lower c = (if 65 \<le> (of_char c :: nat) \<and> (of_char c :: nat) \<le> 90
              then char_of ((of_char c :: nat) + 32) else c)"

definition parse_inf_or_nan :: "string \<Rightarrow> (pyfloat \<times> string) option" where
  "parse_inf_or_nan s =
     (let (negative, r) = parse_sign s
      in if map lower (take 3 r) = ''inf''
         then Some (if negative then NInf else PInf,
                    if map lower (take 5 (drop 3 r)) = ''inity'' then drop 8 r else drop 3 r)
         else if map lower (take 3 r) = ''nan'' then Some (NaN, drop 3 r)
         else None)"

definition string_to_double :: "string \<Rightarrow> (pyfloat \<times> string) option" where
  "string_to_double t =
     (let (negative, r) = parse_sign t
      in case parse_number r of
           Some (v, rest) \<Rightarrow> Some (Fin (if negative then - v else v), rest)
         | None \<Rightarrow> parse_inf_or_nan t)"

definition py_float :: "string \<Rightarrow> error + pyfloat" where
  "py_float s =
     (case remove_underscores (CHR 0x00) s of
        None \<Rightarrow> Inl (FloatValueError s)
      | Some u \<Rightarrow>
          (let t = float_strip u
           in if t = [] then Inl (FloatValueError s)
              else (case string_to_double t of
                      None \<Rightarrow> Inl (FloatValueError s)
                    | Some (x, rest) \<Rightarrow>
                        if rest = [] then Inr x else Inl (FloatValueError s))))"

definition to_float :: "string option \<Rightarrow> error + pyfloat" where
  "to_float x =
     (let s = strip (py_str x)
      in if s = [] then Inr NaN
         else py_float
                (if CHR '','' \<in> set s \<and> CHR ''.'' \<in> set s
                 then (if rfind s (CHR '','') > rfind s (CHR ''.'')
                       then replace (replace s (CHR ''.'') []) (CHR '','') ''.''
                       else replace s (CHR '','') [])
                 else (if CHR '','' \<in> set s \<and> CHR ''.'' \<notin> set s
                       then replace s (CHR '','') ''.''
                       else s)))"

section \<open>Parsing dates\<close>

text \<open>
  \<^verbatim>\<open>datetime.strptime\<close> turns the format into a regular expression, one group per
  directive, takes the first match in the order of its alternatives, and then requires
  the match to end where the text ends. The three directives the program uses are
  \<^verbatim>\<open>%Y\<close> (four digits), \<^verbatim>\<open>%m\<close> (\<^verbatim>\<open>1[0-2]|0[1-9]|[1-9]\<close>) and \<^verbatim>\<open>%d\<close>
  (\<^verbatim>\<open>3[0-1]|[1-2]\d|0[1-9]|[1-9]| [1-9]\<close>); any other character of the format stands for
  itself, in either case.
\<close>

datatype directive = DirY | DirM | DirD | Lit char

fun directives :: "string \<Rightarrow> directive list" where
  "directives [] = []"
| "directives [c] = [Lit c]"
| "directives (c # d # cs) =
     (if c = CHR ''%''
      then (if d = CHR ''Y'' then DirY # directives cs
            else if d = CHR ''m'' then DirM # directives cs
            else if d = CHR ''d'' then DirD # directives cs
            else Lit d # directives cs)
      else Lit c # directives (d # cs))"

definition in_range :: "char \<Rightarrow> char \<Rightarrow> char \<Rightarrow> bool" where
  "in_range lo hi c = ((of_char lo :: nat) \<le> of_char c \<and> (of_char c :: nat) \<le> of_char hi)"

text \<open>The alternatives of a directive, in order; an alternative is a sequence of character
  classes.\<close>

fun alternatives :: "directive \<Rightarrow> (char \<Rightarrow> bool) list list" where
  "alternatives DirY = [[is_digit, is_digit, is_digit, is_digit]]"
| "alternatives DirM =
     [[(=) (CHR ''1''), in_range (CHR ''0'') (CHR ''2'')],
      [(=) (CHR ''0''), in_range (CHR ''1'') (CHR ''9'')],
      [in_range (CHR ''1'') (CHR ''9'')]]"
| "alternatives DirD =
     [[(=) (CHR ''3''), in_range (CHR ''0'') (CHR ''1'')],
      [in_range (CHR ''1'') (CHR ''2''), is_digit],
      [(=) (CHR ''0''), in_range (CHR ''1'') (CHR ''9'')],
      [in_range (CHR ''1'') (CHR ''9'')],
      [(=) (CHR '' ''), in_range (CHR ''1'') (CHR ''9'')]]"
| "alternatives (Lit c) = [[\<lambda>x. lower x = lower c]]"

fun match_classes :: "(char \<Rightarrow> bool) list \<Rightarrow> string \<Rightarrow> (string \<times> string) option" where
  "match_classes [] s = Some ([], s)"
| "match_classes (p # ps) [] = None"
| "match_classes (p # ps) (c # cs) =
     (if p c
      then (case match_classes ps cs of
              None \<Rightarrow> None
            | Some (tok, rest) \<Rightarrow> Some (c # tok, rest))
      else None)"

fun first_some :: "'a option list \<Rightarrow> 'a option" where
  "first_some [] = None"
| "first_some (None # xs) = first_some xs"
| "first_some (Some x # xs) = Some x"

text \<open>The first match of the whole expression, with backtracking over the alternatives:
  the text of every group, and the text left after the match.\<close>

fun match_seq :: "directive list \<Rightarrow> string \<Rightarrow> ((directive \<times> string) list \<times> string) option" where
  "match_seq [] s = Some ([], s)"
| "match_seq (d # ds) s =
     first_some
       (map (\<lambda>alt. case match_classes alt s of
                      None \<Rightarrow> None
                    | Some (tok, rest) \<Rightarrow>
                        (case match_seq ds rest of
                           None \<Rightarrow> None
                         | Some (groups, r) \<Rightarrow> Some ((d, tok) # groups, r)))
            (alternatives d))"

definition is_leap :: "nat \<Rightarrow> bool" where
  "is_leap y = (y mod 4 = 0 \<and> (y mod 100 \<noteq> 0 \<or> y mod 400 = 0))"

definition days_in_month :: "nat \<Rightarrow> nat \<Rightarrow> nat" where
  "days_in_month y m =
     (if m = 2 then (if is_leap y then 29 else 28)
      else if m \<in> {4, 6, 9, 11} then 30 else 31)"

text \<open>The check of the \<^verbatim>\<open>date\<close> constructor.\<close>

definition valid_date :: "nat \<Rightarrow> nat \<Rightarrow> nat \<Rightarrow> bool" where
  "valid_date y m d =
     (1 \<le> y \<and> y \<le> 9999 \<and> 1 \<le> m \<and> m \<le> 12 \<and> 1 \<le> d \<and> d \<le> days_in_month y m)"

text \<open>\<^verbatim>\<open>int(tok)\<close> of a matched group: digits, after a blank for a blank-padded day.\<close>

definition group_int :: "(directive \<times> string) list \<Rightarrow> directive \<Rightarrow> nat \<Rightarrow> nat" where
  "group_int groups d dflt =
     (case map_of groups d of None \<Rightarrow> dflt | Some tok \<Rightarrow> digits_val (strip tok))"

definition strptime :: "string \<Rightarrow> string \<Rightarrow> error + datetime" where
  "strptime s fmt =
     (case match_seq (directives fmt) s of
        None \<Rightarrow> Inl StrptimeError
      | Some (groups, rest) \<Rightarrow>
          if rest \<noteq> [] then Inl StrptimeError
          else (let y = group_int groups DirY 1900;
                    m = group_int groups DirM 1;
                    d = group_int groups DirD 1
                in if valid_date y m d then Inr \<lparr>year = y, month = m, day = d\<rparr>
                   else Inl StrptimeError))"

text \<open>The loop of \<^verbatim>\<open>_parse_date\<close> over the formats: a format that fails is passed over.\<close>

fun try_formats :: "string \<Rightarrow> string \<Rightarrow> string list \<Rightarrow> error + datetime" where
  "try_formats d s [] = Inl (DateValueError d)"
| "try_formats d s (fmt # fmts) =
     (case strptime s fmt of
        Inr dt \<Rightarrow> Inr dt
      | Inl e \<Rightarrow> try_formats d s fmts)"

definition parse_date :: "string option \<Rightarrow> error + datetime" where
  "parse_date x =
     (case x of
        None \<Rightarrow> Inl AttributeError
      | Some d \<Rightarrow> try_formats d (strip d) [''%Y-%m-%d'', ''%d/%m/%Y'', ''%Y/%m/%d''])"

section \<open>Reading the rows\<close>

text \<open>The body of the loop of \<^verbatim>\<open>read_evm_csv\<close> for the row numbered \<open>i\<close>.\<close>

definition parse_row :: "nat \<Rightarrow> csv_row \<Rightarrow> error + EVMRow" where
  "parse_row i r =
     (case parse_date (csv_row.Date r) of
        Inl e \<Rightarrow> Inl (RowParseError i e)
      | Inr dt \<Rightarrow>
          (case to_float (PV r) of
             Inl e \<Rightarrow> Inl (RowParseError i e)
           | Inr p \<Rightarrow>
               (case to_float (EV r) of
                  Inl e \<Rightarrow> Inl (RowParseError i e)
                | Inr v \<Rightarrow>
                    (case to_float (AC r) of
                       Inl e \<Rightarrow> Inl (RowParseError i e)
                     | Inr a \<Rightarrow>
                         if isnan p \<or> isnan v \<or> isnan a then Inl (RowNaNError i r)
                         else Inr \<lparr>date = dt, pv = p, ev = v, ac = a\<rparr>))))"

text \<open>The loop itself: \<open>i\<close> is the number \<^verbatim>\<open>enumerate(reader, start=2)\<close> gives the next
  row, \<open>rows\<close> the list built so far.\<close>

fun read_rows :: "nat \<Rightarrow> csv_row list \<Rightarrow> EVMRow list \<Rightarrow> error + EVMRow list" where
  "read_rows i [] rows = Inr rows"
| "read_rows i (r # rs) rows =
     (case parse_row i r of
        Inl e \<Rightarrow> Inl e
      | Inr row \<Rightarrow> read_rows (i + 1) rs (rows @ [row]))"

definition date_key :: "EVMRow \<Rightarrow> nat \<times> nat \<times> nat" where
  "date_key x = (year (date x), month (date x), day (date x))"

text \<open>\<^verbatim>\<open>read_evm_csv\<close> on the records of a file whose header has the required columns:
  the loop, then the stable sort by date.\<close>

definition read_evm_csv :: "csv_row list \<Rightarrow> error + EVMRow list" where
  "read_evm_csv rs =
     (case read_rows 2 rs [] of
        Inl e \<Rightarrow> Inl e
      | Inr rows \<Rightarrow> Inr (sort_key date_key rows))"

section \<open>Properties of the ratio helper\<close>

lemma isclose_zero: "isclose b (Fin 0) = (b = Fin 0)"
  by (cases b) (auto simp: isclose_def feq_def isnan_def isinf_def fsub_def rel_tol_def abs_tol_def)

lemma safe_div_unfold: "safe_div a b = (if b = Fin 0 then Inr NaN else fdiv a b)"
  by (cases b) (auto simp: safe_div_def isclose_zero feq_def isnan_def)

lemma fdiv_total: "b \<noteq> Fin 0 \<Longrightarrow> \<exists>v. fdiv a b = Inr v"
  by (cases b) auto

lemma safe_div_total: "\<exists>v. safe_div a b = Inr v"
  using fdiv_total [of b a] by (auto simp: safe_div_unfold)

lemma safe_div_nan_right: "safe_div a NaN = Inr NaN"
  by (simp add: safe_div_unfold)


section \<open>Properties of the EVM engine\<close>

lemma fsub_nan [simp]: "fsub NaN b = NaN" "fsub a NaN = NaN"
  by (cases a; simp add: fsub_def)+

lemma fadd_nan_right [simp]: "fadd a NaN = NaN"
  by (cases a) simp_all

lemma fmul_nan_right [simp]: "fmul a NaN = NaN"
  by (cases a) simp_all

lemma evm_loop_result:
  "\<exists>ds. evm_loop rs a b c out = Inr (out @ ds) \<and> length ds = length rs \<and>
        (rs \<noteq> [] \<longrightarrow>
           detail.PV_cum (last ds) = foldl fadd a (map pv rs) \<and>
           detail.EV_cum (last ds) = foldl fadd b (map ev rs) \<and>
           detail.AC_cum (last ds) = foldl fadd c (map ac rs) \<and>
           detail.SV (last ds) = fsub (foldl fadd b (map ev rs)) (foldl fadd a (map pv rs)) \<and>
           detail.CV (last ds) = fsub (foldl fadd b (map ev rs)) (foldl fadd c (map ac rs)) \<and>
           safe_div (foldl fadd b (map ev rs)) (foldl fadd a (map pv rs)) = Inr (detail.SPI (last ds)) \<and>
           safe_div (foldl fadd b (map ev rs)) (foldl fadd c (map ac rs)) = Inr (detail.CPI (last ds)))"
proof (induction rs arbitrary: a b c out)
  case Nil
  then show ?case by simp
next
  case (Cons r rs)
  let ?a = "fadd a (pv r)" and ?b = "fadd b (ev r)" and ?c = "fadd c (ac r)"
  obtain spi where spi: "safe_div ?b ?a = Inr spi" using safe_div_total by blast
  obtain cpi where cpi: "safe_div ?b ?c = Inr cpi" using safe_div_total by blast
  let ?d = "\<lparr>detail.Date = strftime (date r), PV_period = pv r, EV_period = ev r,
             AC_period = ac r, detail.PV_cum = ?a, detail.EV_cum = ?b, detail.AC_cum = ?c,
             detail.SV = fsub ?b ?a, detail.CV = fsub ?b ?c, detail.SPI = spi,
             detail.CPI = cpi\<rparr>"
  have step: "evm_loop (r # rs) a b c out = evm_loop rs ?a ?b ?c (out @ [?d])"
    by (simp add: spi cpi Let_def)
  from Cons.IH [of ?a ?b ?c "out @ [?d]"] obtain ds where
    ds: "evm_loop rs ?a ?b ?c (out @ [?d]) = Inr ((out @ [?d]) @ ds)" "length ds = length rs"
    and lst: "rs \<noteq> [] \<longrightarrow>
           detail.PV_cum (last ds) = foldl fadd ?a (map pv rs) \<and>
           detail.EV_cum (last ds) = foldl fadd ?b (map ev rs) \<and>
           detail.AC_cum (last ds) = foldl fadd ?c (map ac rs) \<and>
           detail.SV (last ds) = fsub (foldl fadd ?b (map ev rs)) (foldl fadd ?a (map pv rs)) \<and>
           detail.CV (last ds) = fsub (foldl fadd ?b (map ev rs)) (foldl fadd ?c (map ac rs)) \<and>
           safe_div (foldl fadd ?b (map ev rs)) (foldl fadd ?a (map pv rs)) = Inr (detail.SPI (last ds)) \<and>
           safe_div (foldl fadd ?b (map ev rs)) (foldl fadd ?c (map ac rs)) = Inr (detail.CPI (last ds))"
    by blast
  show ?case
  proof (intro exI [of _ "?d # ds"] conjI impI)
    show "evm_loop (r # rs) a b c out = Inr (out @ ?d # ds)" using step ds by simp
    show "length (?d # ds) = length (r # rs)" using ds by simp
  next
    assume "r # rs \<noteq> []"
    show "detail.PV_cum (last (?d # ds)) = foldl fadd a (map pv (r # rs))"
      using lst ds(2) by (cases rs) auto
    show "detail.EV_cum (last (?d # ds)) = foldl fadd b (map ev (r # rs))"
      using lst ds(2) by (cases rs) auto
    show "detail.AC_cum (last (?d # ds)) = foldl fadd c (map ac (r # rs))"
      using lst ds(2) by (cases rs) auto
    show "detail.SV (last (?d # ds)) = fsub (foldl fadd b (map ev (r # rs))) (foldl fadd a (map pv (r # rs)))"
      using lst ds(2) by (cases rs) auto
    show "detail.CV (last (?d # ds)) = fsub (foldl fadd b (map ev (r # rs))) (foldl fadd c (map ac (r # rs)))"
      using lst ds(2) by (cases rs) auto
    show "safe_div (foldl fadd b (map ev (r # rs))) (foldl fadd a (map pv (r # rs))) = Inr (detail.SPI (last (?d # ds)))"
      using lst ds(2) spi by (cases rs) auto
    show "safe_div (foldl fadd b (map ev (r # rs))) (foldl fadd c (map ac (r # rs))) = Inr (detail.CPI (last (?d # ds)))"
      using lst ds(2) cpi by (cases rs) auto
  qed
qed

lemma guard_eac_cpi: "(if \<not> isnan c then safe_div a c else Inr NaN) = safe_div a c"
  by (simp add: isnan_def safe_div_nan_right)

lemma fmul_nan_left: "fmul NaN b = NaN"
  by simp

lemma guard_denom: "(if \<not> isnan c \<and> \<not> isnan p then fmul c p else NaN) = fmul c p"
  by (auto simp: isnan_def)

lemma guard_eac_cpi_spi:
  "(if \<not> isnan d then (case safe_div x d of Inl e \<Rightarrow> Inl e | Inr q \<Rightarrow> Inr (fadd a q)) else Inr NaN)
   = (case safe_div x d of Inl e \<Rightarrow> Inl e | Inr q \<Rightarrow> Inr (fadd a q))"
  by (simp add: isnan_def safe_div_nan_right)

lemma guard_fsub_left: "(if \<not> isnan e then fsub e a else NaN) = fsub e a"
  by (simp add: isnan_def)

lemma guard_fsub_right: "(if \<not> isnan e then fsub b e else NaN) = fsub b e"
  by (simp add: isnan_def)

lemma compute_evm_result:
  assumes loop: "evm_loop rows (Fin 0) (Fin 0) (Fin 0) [] = Inr out"
  shows "\<exists>s q. compute_evm rows bac = Inr (out, s) \<and>
     BAC s = (case bac of Some b \<Rightarrow> b | None \<Rightarrow> if out \<noteq> [] then detail.PV_cum (last out) else Fin 0) \<and>
     BAC_source s = (if bac \<noteq> None then ''user'' else ''inferred_from_last_PV_cum'') \<and>
     summary.PV_cum s = (if out \<noteq> [] then detail.PV_cum (last out) else Fin 0) \<and>
     summary.EV_cum s = (if out \<noteq> [] then detail.EV_cum (last out) else Fin 0) \<and>
     summary.AC_cum s = (if out \<noteq> [] then detail.AC_cum (last out) else Fin 0) \<and>
     summary.SPI s = (if out \<noteq> [] then detail.SPI (last out) else NaN) \<and>
     summary.CPI s = (if out \<noteq> [] then detail.CPI (last out) else NaN) \<and>
     summary.SV s = (if out \<noteq> [] then detail.SV (last out) else NaN) \<and>
     summary.CV s = (if out \<noteq> [] then detail.CV (last out) else NaN) \<and>
     safe_div (BAC s) (summary.CPI s) = Inr (EAC_CPI s) \<and>
     ETC_CPI s = fsub (EAC_CPI s) (summary.AC_cum s) \<and>
     VAC_CPI s = fsub (BAC s) (EAC_CPI s) \<and>
     safe_div (fsub (BAC s) (summary.EV_cum s)) (fmul (summary.CPI s) (summary.SPI s)) = Inr q \<and>
     EAC_CPI_SPI s = fadd (summary.AC_cum s) q \<and>
     ETC_CPI_SPI s = fsub (EAC_CPI_SPI s) (summary.AC_cum s) \<and>
     VAC_CPI_SPI s = fsub (BAC s) (EAC_CPI_SPI s)"
proof -
  let ?lst = "if out \<noteq> [] then Some (last out) else None"
  let ?bf = "case bac of Some b \<Rightarrow> b | None \<Rightarrow> if out \<noteq> [] then detail.PV_cum (last out) else Fin 0"
  let ?cpi = "last_get ?lst detail.CPI NaN"
  let ?spi = "last_get ?lst detail.SPI NaN"
  let ?acl = "last_get ?lst detail.AC_cum (Fin 0)"
  let ?evl = "last_get ?lst detail.EV_cum (Fin 0)"
  obtain eac where eac: "safe_div ?bf ?cpi = Inr eac" using safe_div_total by blast
  obtain q where q: "safe_div (fsub ?bf ?evl) (fmul ?cpi ?spi) = Inr q" using safe_div_total by blast
  have "compute_evm rows bac = Inr (out,
      \<lparr>BAC = ?bf, BAC_source = (if bac \<noteq> None then ''user'' else ''inferred_from_last_PV_cum''),
       PV_cum = last_get ?lst detail.PV_cum (Fin 0), EV_cum = ?evl, AC_cum = ?acl,
       SPI = ?spi, CPI = ?cpi, SV = last_get ?lst detail.SV NaN, CV = last_get ?lst detail.CV NaN,
       EAC_CPI = eac, ETC_CPI = fsub eac ?acl, VAC_CPI = fsub ?bf eac,
       EAC_CPI_SPI = fadd ?acl q, ETC_CPI_SPI = fsub (fadd ?acl q) ?acl,
       VAC_CPI_SPI = fsub ?bf (fadd ?acl q)\<rparr>)"
    unfolding compute_evm_def loop Let_def guard_eac_cpi guard_denom guard_eac_cpi_spi
      guard_fsub_left guard_fsub_right
    by (simp only: eac q sum.case)
  then show ?thesis
    using eac q
    by (auto simp: last_get_def)
qed

lemma compute_evm_general:
  "\<exists>out s q. compute_evm rows bac = Inr (out, s) \<and> length out = length rows \<and>
     BAC s = (case bac of Some b \<Rightarrow> b | None \<Rightarrow> if out \<noteq> [] then detail.PV_cum (last out) else Fin 0) \<and>
     BAC_source s = (if bac \<noteq> None then ''user'' else ''inferred_from_last_PV_cum'') \<and>
     summary.PV_cum s = (if out \<noteq> [] then detail.PV_cum (last out) else Fin 0) \<and>
     summary.EV_cum s = (if out \<noteq> [] then detail.EV_cum (last out) else Fin 0) \<and>
     summary.AC_cum s = (if out \<noteq> [] then detail.AC_cum (last out) else Fin 0) \<and>
     summary.SPI s = (if out \<noteq> [] then detail.SPI (last out) else NaN) \<and>
     summary.CPI s = (if out \<noteq> [] then detail.CPI (last out) else NaN) \<and>
     summary.SV s = (if out \<noteq> [] then detail.SV (last out) else NaN) \<and>
     summary.CV s = (if out \<noteq> [] then detail.CV (last out) else NaN) \<and>
     safe_div (BAC s) (summary.CPI s) = Inr (EAC_CPI s) \<and>
     ETC_CPI s = fsub (EAC_CPI s) (summary.AC_cum s) \<and>
     VAC_CPI s = fsub (BAC s) (EAC_CPI s) \<and>
     safe_div (fsub (BAC s) (summary.EV_cum s)) (fmul (summary.CPI s) (summary.SPI s)) = Inr q \<and>
     EAC_CPI_SPI s = fadd (summary.AC_cum s) q \<and>
     ETC_CPI_SPI s = fsub (EAC_CPI_SPI s) (summary.AC_cum s) \<and>
     VAC_CPI_SPI s = fsub (BAC s) (EAC_CPI_SPI s) \<and>
     (rows \<noteq> [] \<longrightarrow>
        detail.PV_cum (last out) = foldl fadd (Fin 0) (map pv rows) \<and>
        detail.EV_cum (last out) = foldl fadd (Fin 0) (map ev rows) \<and>
        detail.AC_cum (last out) = foldl fadd (Fin 0) (map ac rows) \<and>
        safe_div (detail.EV_cum (last out)) (detail.PV_cum (last out)) = Inr (detail.SPI (last out)) \<and>
        safe_div (detail.EV_cum (last out)) (detail.AC_cum (last out)) = Inr (detail.CPI (last out)))"
proof -
  from evm_loop_result [of rows "Fin 0" "Fin 0" "Fin 0" "[]"] obtain out where
    loop: "evm_loop rows (Fin 0) (Fin 0) (Fin 0) [] = Inr out" and len: "length out = length rows"
    and lst: "rows \<noteq> [] \<longrightarrow>
        detail.PV_cum (last out) = foldl fadd (Fin 0) (map pv rows) \<and>
        detail.EV_cum (last out) = foldl fadd (Fin 0) (map ev rows) \<and>
        detail.AC_cum (last out) = foldl fadd (Fin 0) (map ac rows) \<and>
        safe_div (detail.EV_cum (last out)) (detail.PV_cum (last out)) = Inr (detail.SPI (last out)) \<and>
        safe_div (detail.EV_cum (last out)) (detail.AC_cum (last out)) = Inr (detail.CPI (last out))"
    by auto
  from compute_evm_result [OF loop, of bac] obtain s q where
    "compute_evm rows bac = Inr (out, s) \<and>
     BAC s = (case bac of Some b \<Rightarrow> b | None \<Rightarrow> if out \<noteq> [] then detail.PV_cum (last out) else Fin 0) \<and>
     BAC_source s = (if bac \<noteq> None then ''user'' else ''inferred_from_last_PV_cum'') \<and>
     summary.PV_cum s = (if out \<noteq> [] then detail.PV_cum (last out) else Fin 0) \<and>
     summary.EV_cum s = (if out \<noteq> [] then detail.EV_cum (last out) else Fin 0) \<and>
     summary.AC_cum s = (if out \<noteq> [] then detail.AC_cum (last out) else Fin 0) \<and>
     summary.SPI s = (if out \<noteq> [] then detail.SPI (last out) else NaN) \<and>
     summary.CPI s = (if out \<noteq> [] then detail.CPI (last out) else NaN) \<and>
     summary.SV s = (if out \<noteq> [] then detail.SV (last out) else NaN) \<and>
     summary.CV s = (if out \<noteq> [] then detail.CV (last out) else NaN) \<and>
     safe_div (BAC s) (summary.CPI s) = Inr (EAC_CPI s) \<and>
     ETC_CPI s = fsub (EAC_CPI s) (summary.AC_cum s) \<and>
     VAC_CPI s = fsub (BAC s) (EAC_CPI s) \<and>
     safe_div (fsub (BAC s) (summary.EV_cum s)) (fmul (summary.CPI s) (summary.SPI s)) = Inr q \<and>
     EAC_CPI_SPI s = fadd (summary.AC_cum s) q \<and>
     ETC_CPI_SPI s = fsub (EAC_CPI_SPI s) (summary.AC_cum s) \<and>
     VAC_CPI_SPI s = fsub (BAC s) (EAC_CPI_SPI s)"
    by blast
  with len lst show ?thesis by blast
qed

lemmas evm_eval = compute_evm_def Let_def last_get_def isnan_def safe_div_unfold fsub_def

text \<open>
  Claim C2. The ratio helper is meant to return not-a-number for a divisor that is zero or
  within a small absolute tolerance of zero. The closeness test it calls compares with a
  relative tolerance and an absolute tolerance of zero, so against zero it holds for zero
  only (\<open>isclose_zero\<close>): for the divisor \<open>1 / 10 ^ 12\<close> the helper divides and
  returns \<open>10 ^ 12\<close>, and a ledger whose first cumulative PV is \<open>1 / 10 ^ 12\<close> has
  the SPI \<open>10 ^ 12\<close>. For every other part of the claim see \<open>safe_div_total\<close>
  (the helper never raises) and \<open>safe_div_unfold\<close> (not-a-number for the divisor zero,
  the quotient otherwise).
\<close>

theorem safe_div_near_zero_divides:
  "safe_div (Fin 1) (Fin (1 / 10 ^ 12)) = Inr (Fin (10 ^ 12))
   \<and> isclose (Fin (1 / 10 ^ 12)) (Fin 0) = False
   \<and> (case compute_evm [\<lparr>date = \<lparr>year = 2024, month = 1, day = 1\<rparr>,
                           pv = Fin (1 / 10 ^ 12), ev = Fin 1, ac = Fin 1\<rparr>] None of
          Inl e \<Rightarrow> False
        | Inr (out, s) \<Rightarrow> summary.SPI s = Fin (10 ^ 12) \<and> detail.SPI (last out) = Fin (10 ^ 12))"
  by (simp add: evm_eval isclose_zero)



text \<open>
  Claim C5, as the specification states it, names the provenance tag of an inferred BAC
  "inferred". The engine writes another text: for a ledger whose final cumulative PV is
  100000 and no BAC, the summary's BAC is 100000 and its tag is
  "inferred_from_last_PV_cum".
\<close>

theorem bac_provenance_counterexample:
  "(case compute_evm [\<lparr>date = \<lparr>year = 2024, month = 1, day = 1\<rparr>,
                       pv = Fin 100000, ev = Fin 90000, ac = Fin 95000\<rparr>] None of
      Inl e \<Rightarrow> False
    | Inr (out, s) \<Rightarrow>
        BAC s = Fin 100000 \<and> BAC_source s = ''inferred_from_last_PV_cum''
        \<and> BAC_source s \<noteq> ''inferred'')"
  by (simp add: evm_eval)

text \<open>
  Claim C5, amended. A BAC the caller supplies is the summary's BAC verbatim, with the
  tag "user". Without one, the summary's BAC is the final cumulative PV (the sum of the
  period PVs, which is 0 for an empty ledger) and the tag is "inferred_from_last_PV_cum".
\<close>

theorem bac_resolution:
  "\<exists>out s. compute_evm rows bac = Inr (out, s) \<and> length out = length rows \<and>
     (case bac of
        Some b \<Rightarrow> BAC s = b \<and> BAC_source s = ''user''
      | None \<Rightarrow>
          BAC s = summary.PV_cum s \<and>
          BAC s = foldl fadd (Fin 0) (map pv rows) \<and>
          BAC s = (if rows = [] then Fin 0 else detail.PV_cum (last out)) \<and>
          BAC_source s = ''inferred_from_last_PV_cum'')"
proof -
  from compute_evm_general [of rows bac] obtain out s where
    res: "compute_evm rows bac = Inr (out, s)" and len: "length out = length rows"
    and bac: "BAC s = (case bac of Some b \<Rightarrow> b | None \<Rightarrow> if out \<noteq> [] then detail.PV_cum (last out) else Fin 0)"
    and src: "BAC_source s = (if bac \<noteq> None then ''user'' else ''inferred_from_last_PV_cum'')"
    and pvc: "summary.PV_cum s = (if out \<noteq> [] then detail.PV_cum (last out) else Fin 0)"
    and cum: "rows \<noteq> [] \<longrightarrow> detail.PV_cum (last out) = foldl fadd (Fin 0) (map pv rows)"
    by blast
  from len have ne: "out \<noteq> [] \<longleftrightarrow> rows \<noteq> []" by auto
  show ?thesis
    using res len bac src pvc cum ne by (cases bac) auto
qed

theorem bac_resolution_witness:
  "\<exists>out s. compute_evm [\<lparr>date = \<lparr>year = 2024, month = 1, day = 1\<rparr>,
                         pv = Fin 100000, ev = Fin 90000, ac = Fin 95000\<rparr>] None = Inr (out, s) \<and>
      length out = 1 \<and> BAC s = Fin 100000 \<and> summary.PV_cum s = Fin 100000 \<and>
      BAC_source s = ''inferred_from_last_PV_cum''"
  using bac_resolution [of "[\<lparr>date = \<lparr>year = 2024, month = 1, day = 1\<rparr>,
                         pv = Fin 100000, ev = Fin 90000, ac = Fin 95000\<rparr>]" None]
  by (simp add: evm_eval)

text \<open>
  Claim C6. When the final CPI is not-a-number, so are the cost-only EAC, ETC and VAC;
  when the final CPI or the final SPI is not-a-number, so are the cost-times-schedule EAC,
  ETC and VAC.
\<close>

theorem nan_propagates:
  "\<exists>out s. compute_evm rows bac = Inr (out, s) \<and>
     (summary.CPI s = NaN \<longrightarrow> EAC_CPI s = NaN \<and> ETC_CPI s = NaN \<and> VAC_CPI s = NaN) \<and>
     (summary.CPI s = NaN \<or> summary.SPI s = NaN \<longrightarrow>
        EAC_CPI_SPI s = NaN \<and> ETC_CPI_SPI s = NaN \<and> VAC_CPI_SPI s = NaN)"
proof -
  from compute_evm_general [of rows bac] obtain out s q where
    res: "compute_evm rows bac = Inr (out, s)"
    and eac: "safe_div (BAC s) (summary.CPI s) = Inr (EAC_CPI s)"
    and etc: "ETC_CPI s = fsub (EAC_CPI s) (summary.AC_cum s)"
    and vac: "VAC_CPI s = fsub (BAC s) (EAC_CPI s)"
    and q: "safe_div (fsub (BAC s) (summary.EV_cum s)) (fmul (summary.CPI s) (summary.SPI s)) = Inr q"
    and eac2: "EAC_CPI_SPI s = fadd (summary.AC_cum s) q"
    and etc2: "ETC_CPI_SPI s = fsub (EAC_CPI_SPI s) (summary.AC_cum s)"
    and vac2: "VAC_CPI_SPI s = fsub (BAC s) (EAC_CPI_SPI s)"
    by blast
  have one: "EAC_CPI s = NaN \<and> ETC_CPI s = NaN \<and> VAC_CPI s = NaN" if "summary.CPI s = NaN"
    using that eac etc vac by (simp add: safe_div_nan_right)
  have two: "EAC_CPI_SPI s = NaN \<and> ETC_CPI_SPI s = NaN \<and> VAC_CPI_SPI s = NaN"
    if "summary.CPI s = NaN \<or> summary.SPI s = NaN"
  proof -
    from that have "fmul (summary.CPI s) (summary.SPI s) = NaN" by auto
    with q have "q = NaN" by (simp add: safe_div_nan_right)
    with eac2 etc2 vac2 show ?thesis by simp
  qed
  from res one two show ?thesis by blast
qed

theorem nan_propagates_witness:
  "\<exists>out s. compute_evm [\<lparr>date = \<lparr>year = 2024, month = 1, day = 1\<rparr>,
                          pv = Fin 0, ev = Fin 0, ac = Fin 0\<rparr>] (Some (Fin 5000)) = Inr (out, s) \<and>
     summary.CPI s = NaN \<and> summary.SPI s = NaN \<and>
     EAC_CPI s = NaN \<and> ETC_CPI s = NaN \<and> VAC_CPI s = NaN \<and>
     EAC_CPI_SPI s = NaN \<and> ETC_CPI_SPI s = NaN \<and> VAC_CPI_SPI s = NaN"
  using nan_propagates [of "[\<lparr>date = \<lparr>year = 2024, month = 1, day = 1\<rparr>,
                          pv = Fin 0, ev = Fin 0, ac = Fin 0\<rparr>]" "Some (Fin 5000)"]
  by (simp add: evm_eval)



section \<open>Properties of the text conversions\<close>

lemmas date_eval = parse_date_def strip_def is_space_def strptime_def in_range_def is_digit_def
  lower_def group_int_def digits_val_def valid_date_def days_in_month_def is_leap_def

lemmas float_eval = to_float_def py_str_def strip_def is_space_def float_strip_def
     is_float_space_def rfind_def replace_def py_float_def
     is_digit_def string_to_double_def parse_sign_def parse_number_def parse_exponent_def
     digits_val_def scale10_def parse_inf_or_nan_def lower_def

lemma replace_delete: "replace s c [] = filter (\<lambda>x. x \<noteq> c) s"
  by (induction s) (simp_all add: replace_def)

lemma replace_char: "replace s c [d] = map (\<lambda>x. if x = c then d else x) s"
  by (induction s) (simp_all add: replace_def)

lemma rfind_from_order:
  "fc < i \<Longrightarrow> fd < i \<Longrightarrow> c \<noteq> d \<Longrightarrow>
   (rfind_from s c i fc > rfind_from s d i fd) =
   (if filter (\<lambda>x. x = c \<or> x = d) s = [] then fc > fd
    else last (filter (\<lambda>x. x = c \<or> x = d) s) = c)"
proof (induction s arbitrary: i fc fd)
  case Nil
  then show ?case by simp
next
  case (Cons x s)
  let ?fc = "if x = c then i else fc" and ?fd = "if x = d then i else fd"
  have "?fc < i + 1" "?fd < i + 1" using Cons.prems by auto
  from Cons.IH [OF this Cons.prems(3)] show ?case
    using Cons.prems by auto
qed

lemma rfind_order:
  "c \<noteq> d \<Longrightarrow> c \<in> set s \<Longrightarrow>
   (rfind s c > rfind s d) = (last (filter (\<lambda>x. x = c \<or> x = d) s) = c)"
proof -
  assume cd: "c \<noteq> d" and mem: "c \<in> set s"
  from mem have "filter (\<lambda>x. x = c \<or> x = d) s \<noteq> []"
    by (auto simp: filter_empty_conv)
  with rfind_from_order [of "-1" 0 "-1" c d s] cd show ?thesis
    by (simp add: rfind_def)
qed

lemma to_float_cases:
  "to_float (Some x) =
     (let s = strip x; sep = filter (\<lambda>c. c = CHR '','' \<or> c = CHR ''.'') s in
      if s = [] then Inr NaN
      else if CHR '','' \<in> set s \<and> CHR ''.'' \<in> set s then
        (if last sep = CHR '',''
         then py_float (map (\<lambda>c. if c = CHR '','' then CHR ''.'' else c) (filter (\<lambda>c. c \<noteq> CHR ''.'') s))
         else py_float (filter (\<lambda>c. c \<noteq> CHR '','') s))
      else if CHR '','' \<in> set s then py_float (map (\<lambda>c. if c = CHR '','' then CHR ''.'' else c) s)
      else py_float s)"
  by (auto simp: to_float_def py_str_def Let_def replace_delete replace_char rfind_order)

lemma filter_dropWhile_disjoint:
  "(\<And>x. P x \<Longrightarrow> \<not> Q x) \<Longrightarrow> filter P (dropWhile Q xs) = filter P xs"
  by (induction xs) auto

lemma filter_trim:
  assumes "\<And>x. P x \<Longrightarrow> \<not> Q x"
  shows "length (filter P (rev (dropWhile Q (rev (dropWhile Q s))))) = length (filter P s)"
proof -
  have "length (filter P (rev (dropWhile Q (rev (dropWhile Q s)))))
        = length (filter P (dropWhile Q (rev (dropWhile Q s))))"
    by (simp add: rev_filter [symmetric])
  also have "\<dots> = length (filter P (rev (dropWhile Q s)))"
    using assms by (simp add: filter_dropWhile_disjoint)
  also have "\<dots> = length (filter P s)"
    using assms by (simp add: rev_filter [symmetric] filter_dropWhile_disjoint)
  finally show ?thesis .
qed

lemma filter_strip:
  "(\<And>x. P x \<Longrightarrow> \<not> is_space x) \<Longrightarrow> length (filter P (strip s)) = length (filter P s)"
  unfolding strip_def by (rule filter_trim)

lemma filter_float_strip:
  "(\<And>x. P x \<Longrightarrow> \<not> is_float_space x) \<Longrightarrow>
   length (filter P (float_strip s)) = length (filter P s)"
  unfolding float_strip_def by (rule filter_trim)

lemma set_strip: "set (strip s) \<subseteq> set s"
proof -
  have "set (dropWhile is_space (rev (dropWhile is_space s))) \<subseteq> set (rev (dropWhile is_space s))"
    by (rule set_dropWhileD [THEN subsetI])
  also have "\<dots> \<subseteq> set s" using set_dropWhileD by fastforce
  finally show ?thesis by (simp add: strip_def)
qed

lemma remove_underscores_filter:
  "remove_underscores p s = Some u \<Longrightarrow> u = filter (\<lambda>c. c \<noteq> CHR ''_'') s"
  by (induction s arbitrary: p u) (auto split: if_splits)

lemma dots_takeWhile_digit: "filter (\<lambda>c. c = CHR ''.'') (takeWhile is_digit s) = []"
  by (induction s) (auto simp: is_digit_def)

lemma dots_digits:
  "dropWhile is_digit s = [] \<Longrightarrow> filter (\<lambda>c. c = CHR ''.'') s = []"
proof -
  assume "dropWhile is_digit s = []"
  with takeWhile_dropWhile_id [of is_digit s] have "takeWhile is_digit s = s" by simp
  with dots_takeWhile_digit [of s] show ?thesis by simp
qed

lemma parse_sign_dots:
  "parse_sign t = (n, r) \<Longrightarrow> filter (\<lambda>c. c = CHR ''.'') t = filter (\<lambda>c. c = CHR ''.'') r"
  by (auto simp: parse_sign_def split: list.splits if_splits)

lemma parse_exponent_dots:
  assumes "parse_exponent s = (e, [])"
  shows "filter (\<lambda>c. c = CHR ''.'') s = []"
proof (cases s)
  case Nil
  then show ?thesis by simp
next
  case (Cons c cs)
  obtain n r where ps: "parse_sign cs = (n, r)" by (cases "parse_sign cs")
  from assms Cons ps have ce: "c = CHR ''e'' \<or> c = CHR ''E''" and dr: "dropWhile is_digit r = []"
    by (auto simp: parse_exponent_def Let_def split: if_splits)
  from dots_digits [OF dr] parse_sign_dots [OF ps] ce Cons show ?thesis by auto
qed

lemma parse_number_dots:
  assumes "parse_number s = Some (v, [])"
  shows "length (filter (\<lambda>c. c = CHR ''.'') s) \<le> 1"
proof -
  let ?D = "\<lambda>t. filter (\<lambda>c. c = CHR ''.'') t"
  have split: "?D s = ?D (takeWhile is_digit s) @ ?D (dropWhile is_digit s)"
    by (metis filter_append takeWhile_dropWhile_id)
  show ?thesis
  proof (cases "dropWhile is_digit s")
    case Nil
    with split dots_takeWhile_digit show ?thesis by simp
  next
    case (Cons c cs)
    show ?thesis
    proof (cases "c = CHR ''.''")
      case True
      with assms Cons obtain ex where "parse_exponent (dropWhile is_digit cs) = (ex, [])"
        by (auto simp: parse_number_def Let_def split: if_splits prod.splits)
      from parse_exponent_dots [OF this] have "?D (dropWhile is_digit cs) = []" .
      moreover have "?D cs = ?D (takeWhile is_digit cs) @ ?D (dropWhile is_digit cs)"
        by (metis filter_append takeWhile_dropWhile_id)
      ultimately have "?D cs = []" using dots_takeWhile_digit by simp
      with split Cons True dots_takeWhile_digit show ?thesis by simp
    next
      case False
      with assms Cons obtain ex where "parse_exponent (c # cs) = (ex, [])"
        by (auto simp: parse_number_def Let_def split: if_splits prod.splits)
      from parse_exponent_dots [OF this] split Cons dots_takeWhile_digit show ?thesis by simp
    qed
  qed
qed

lemma lower_dot: "(lower c = CHR ''.'') = (c = CHR ''.'')"
proof -
  have "char_of (of_char c + 32 :: nat) \<noteq> CHR ''.''"
    if "65 \<le> (of_char c :: nat)" "(of_char c :: nat) \<le> 90"
  proof
    assume "char_of (of_char c + 32 :: nat) = CHR ''.''"
    then have "of_char (char_of (of_char c + 32 :: nat) :: char) = (of_char (CHR ''.'') :: nat)" by simp
    then have "(of_char c + 32 :: nat) mod 256 = 46" by (simp add: of_char_of)
    with that show False by simp
  qed
  then show ?thesis by (auto simp: lower_def)
qed

lemma dot_lower: "(CHR ''.'' = lower c) = (c = CHR ''.'')"
  using lower_dot [of c] by (simp only: eq_commute [of "CHR ''.''" "lower c"])

lemma dots_map_lower: "filter (\<lambda>c. c = CHR ''.'') s = [] \<longleftrightarrow> CHR ''.'' \<notin> set (map lower s)"
proof (induction s)
  case Nil
  show ?case by simp
next
  case (Cons x s)
  show ?case
  proof (cases "x = CHR ''.''")
    case True
    then show ?thesis by (simp add: dot_lower)
  next
    case False
    with Cons.IH show ?thesis by (simp add: dot_lower)
  qed
qed

lemma parse_inf_or_nan_dots:
  assumes "parse_inf_or_nan t = Some (x, [])"
  shows "filter (\<lambda>c. c = CHR ''.'') t = []"
proof -
  obtain n r where ps: "parse_sign t = (n, r)" by (cases "parse_sign t")
  let ?D = "\<lambda>t. filter (\<lambda>c. c = CHR ''.'') t"
  have r3: "r = take 3 r @ drop 3 r" by simp
  have r8: "drop 3 r = take 5 (drop 3 r) @ drop 8 r"
  proof -
    have "drop 8 r = drop 5 (drop 3 r)" by simp
    then show ?thesis by (simp only: append_take_drop_id)
  qed
  have "?D r = []"
  proof (cases "map lower (take 3 r) = ''inf''")
    case True
    then have a: "?D (take 3 r) = []" by (simp add: dots_map_lower)
    show ?thesis
    proof (cases "map lower (take 5 (drop 3 r)) = ''inity''")
      case True
      then have b: "?D (take 5 (drop 3 r)) = []" by (simp add: dots_map_lower)
      from assms ps \<open>map lower (take 3 r) = ''inf''\<close> True have "drop 8 r = []"
        by (simp add: parse_inf_or_nan_def)
      with r8 b have "?D (drop 3 r) = []" by (metis append_Nil2)
      with a r3 show ?thesis by (metis filter_append append_Nil2)
    next
      case False
      from assms ps \<open>map lower (take 3 r) = ''inf''\<close> False have "drop 3 r = []"
        by (simp add: parse_inf_or_nan_def)
      with a r3 show ?thesis by (metis append_Nil2)
    qed
  next
    case False
    with assms ps have nan: "map lower (take 3 r) = ''nan''" and "drop 3 r = []"
      by (auto simp: parse_inf_or_nan_def split: if_splits)
    from nan have "?D (take 3 r) = []" by (simp add: dots_map_lower)
    with r3 \<open>drop 3 r = []\<close> show ?thesis by (metis append_Nil2)
  qed
  with parse_sign_dots [OF ps] show ?thesis by simp
qed

lemma string_to_double_dots:
  assumes "string_to_double t = Some (x, [])"
  shows "length (filter (\<lambda>c. c = CHR ''.'') t) \<le> 1"
proof -
  obtain n r where ps: "parse_sign t = (n, r)" by (cases "parse_sign t")
  show ?thesis
  proof (cases "parse_number r")
    case None
    with assms ps have "parse_inf_or_nan t = Some (x, [])"
      by (simp add: string_to_double_def)
    from parse_inf_or_nan_dots [OF this] show ?thesis by simp
  next
    case (Some a)
    with assms ps obtain v where "parse_number r = Some (v, [])"
      by (cases a) (auto simp: string_to_double_def)
    from parse_number_dots [OF this] parse_sign_dots [OF ps] show ?thesis by simp
  qed
qed

lemma py_float_error: "py_float s = Inl e \<Longrightarrow> e = FloatValueError s"
  by (auto simp: py_float_def Let_def split: option.splits if_splits prod.splits)

lemma py_float_dots:
  assumes "py_float s = Inr v"
  shows "length (filter (\<lambda>c. c = CHR ''.'') s) \<le> 1"
proof -
  from assms obtain u where u: "remove_underscores (CHR 0x00) s = Some u"
    and std: "string_to_double (float_strip u) = Some (v, [])"
    by (auto simp: py_float_def Let_def split: option.splits if_splits prod.splits)
  from remove_underscores_filter [OF u] have "filter (\<lambda>c. c = CHR ''.'') u = filter (\<lambda>c. c = CHR ''.'') s"
    by (auto intro: filter_cong)
  moreover have "length (filter (\<lambda>c. c = CHR ''.'') (float_strip u)) = length (filter (\<lambda>c. c = CHR ''.'') u)"
    by (rule filter_float_strip) (simp add: is_float_space_def)
  ultimately show ?thesis using string_to_double_dots [OF std] by simp
qed

section \<open>Properties of the row reader\<close>

lemma to_float_error: "to_float x = Inl e \<Longrightarrow> \<exists>t. e = FloatValueError t"
  by (auto simp: to_float_def Let_def split: if_splits dest: py_float_error)

lemma to_float_empty: "strip (py_str x) = [] \<Longrightarrow> to_float x = Inr NaN"
  by (simp add: to_float_def)

lemma parse_row_isl:
  "isl (parse_row i r) \<longleftrightarrow>
     isl (parse_date (csv_row.Date r)) \<or> isl (to_float (PV r)) \<or> isl (to_float (EV r)) \<or>
     isl (to_float (AC r)) \<or> to_float (PV r) = Inr NaN \<or> to_float (EV r) = Inr NaN \<or>
     to_float (AC r) = Inr NaN"
  by (auto simp: parse_row_def isnan_def split: sum.splits)

lemma read_rows_fail:
  "k < length rs \<Longrightarrow> (\<forall>j<k. \<not> isl (parse_row (i + j) (rs ! j))) \<Longrightarrow>
   parse_row (i + k) (rs ! k) = Inl e \<Longrightarrow> read_rows i rs acc = Inl e"
proof (induction rs arbitrary: i k acc)
  case Nil
  then show ?case by simp
next
  case (Cons r rs)
  show ?case
  proof (cases k)
    case 0
    with Cons.prems show ?thesis by simp
  next
    case (Suc k')
    from Cons.prems(2) Suc have "\<not> isl (parse_row (i + 0) ((r # rs) ! 0))" by blast
    then obtain row where row: "parse_row i r = Inr row" by (cases "parse_row i r") auto
    have a: "k' < length rs" using Cons.prems(1) Suc by simp
    have b: "\<forall>j<k'. \<not> isl (parse_row (i + 1 + j) (rs ! j))"
    proof (intro allI impI)
      fix j assume "j < k'"
      then have "Suc j < k" using Suc by simp
      with Cons.prems(2) have "\<not> isl (parse_row (i + Suc j) ((r # rs) ! Suc j))" by blast
      then show "\<not> isl (parse_row (i + 1 + j) (rs ! j))" by simp
    qed
    have c: "parse_row (i + 1 + k') (rs ! k') = Inl e" using Cons.prems(3) Suc by simp
    from Cons.IH [OF a b c] row show ?thesis by simp
  qed
qed

lemma read_rows_ok:
  "(\<forall>j<length rs. \<not> isl (parse_row (i + j) (rs ! j))) \<Longrightarrow>
   \<exists>rows. read_rows i rs acc = Inr (acc @ rows) \<and> length rows = length rs \<and>
          (\<forall>j<length rs. parse_row (i + j) (rs ! j) = Inr (rows ! j))"
proof (induction rs arbitrary: i acc)
  case Nil
  then show ?case by simp
next
  case (Cons r rs)
  from Cons.prems have "\<not> isl (parse_row (i + 0) ((r # rs) ! 0))" by blast
  then obtain row where row: "parse_row i r = Inr row" by (cases "parse_row i r") auto
  have b: "\<forall>j<length rs. \<not> isl (parse_row (i + 1 + j) (rs ! j))"
  proof (intro allI impI)
    fix j assume "j < length rs"
    then have "Suc j < length (r # rs)" by simp
    with Cons.prems have "\<not> isl (parse_row (i + Suc j) ((r # rs) ! Suc j))" by blast
    then show "\<not> isl (parse_row (i + 1 + j) (rs ! j))" by simp
  qed
  from Cons.IH [OF b, of "acc @ [row]"] obtain rows where
    rows: "read_rows (i + 1) rs (acc @ [row]) = Inr ((acc @ [row]) @ rows)"
      "length rows = length rs" "\<forall>j<length rs. parse_row (i + 1 + j) (rs ! j) = Inr (rows ! j)"
    by blast
  show ?case
  proof (intro exI [of _ "row # rows"] conjI allI impI)
    show "read_rows i (r # rs) acc = Inr (acc @ row # rows)" using row rows(1) by simp
    show "length (row # rows) = length (r # rs)" using rows(2) by simp
    fix j assume "j < length (r # rs)"
    then show "parse_row (i + j) ((r # rs) ! j) = Inr ((row # rows) ! j)"
      using row rows(3) by (cases j) auto
  qed
qed

lemma read_rows_member_fail:
  assumes "r \<in> set rs" and "\<And>i. isl (parse_row i r)"
  shows "isl (read_rows i rs acc)"
proof (rule ccontr)
  assume n: "\<not> isl (read_rows i rs acc)"
  from assms(1) obtain k where k: "k < length rs" "rs ! k = r" by (auto simp: in_set_conv_nth)
  define P where "P = (\<lambda>j. j < length rs \<and> isl (parse_row (i + j) (rs ! j)))"
  have "P k" using k assms(2) by (simp add: P_def)
  then have l: "P (LEAST j. P j)" by (rule LeastI)
  have m: "\<And>j. j < (LEAST j. P j) \<Longrightarrow> \<not> P j" by (rule not_less_Least)
  let ?k = "LEAST j. P j"
  from l obtain e where e: "parse_row (i + ?k) (rs ! ?k) = Inl e"
    by (cases "parse_row (i + ?k) (rs ! ?k)") (auto simp: P_def)
  have "\<forall>j<?k. \<not> isl (parse_row (i + j) (rs ! j))"
    using m l by (auto simp: P_def)
  from read_rows_fail [OF _ this e, of acc] l have "read_rows i rs acc = Inl e" by (simp add: P_def)
  with n show False by simp
qed

lemma read_rows_Inr:
  "read_rows i rs acc = Inr rows \<Longrightarrow>
   \<exists>new. rows = acc @ new \<and> length new = length rs \<and>
         (\<forall>j<length rs. parse_row (i + j) (rs ! j) = Inr (new ! j))"
proof (induction rs arbitrary: i acc)
  case Nil
  then show ?case by simp
next
  case (Cons r rs)
  from Cons.prems obtain row where row: "parse_row i r = Inr row"
    and rest: "read_rows (i + 1) rs (acc @ [row]) = Inr rows"
    by (cases "parse_row i r") auto
  from Cons.IH [OF rest] obtain new where
    new: "rows = (acc @ [row]) @ new" "length new = length rs"
      "\<forall>j<length rs. parse_row (i + 1 + j) (rs ! j) = Inr (new ! j)"
    by blast
  show ?case
  proof (intro exI [of _ "row # new"] conjI allI impI)
    show "rows = acc @ row # new" using new(1) by simp
    show "length (row # new) = length (r # rs)" using new(2) by simp
    fix j assume "j < length (r # rs)"
    then show "parse_row (i + j) ((r # rs) ! j) = Inr ((row # new) ! j)"
      using row new(3) by (cases j) auto
  qed
qed

lemma parse_row_Inr:
  "parse_row i r = Inr row \<Longrightarrow>
   to_float (PV r) = Inr (pv row) \<and> to_float (EV r) = Inr (ev row) \<and>
   to_float (AC r) = Inr (ac row) \<and> parse_date (csv_row.Date r) = Inr (date row) \<and>
   \<not> isnan (pv row) \<and> \<not> isnan (ev row) \<and> \<not> isnan (ac row)"
  by (auto simp: parse_row_def split: sum.splits if_splits)

lemma try_formats_error: "try_formats d s fmts = Inl e \<Longrightarrow> e = DateValueError d"
  by (induction fmts) (auto split: sum.splits)

lemma parse_date_error:
  "parse_date x = Inl e \<Longrightarrow>
   (x = None \<and> e = AttributeError) \<or> (\<exists>d. x = Some d \<and> e = DateValueError d)"
proof (cases x)
  case None
  assume "parse_date x = Inl e"
  with None show ?thesis by (simp add: parse_date_def)
next
  case (Some d)
  assume "parse_date x = Inl e"
  with Some have "try_formats d (strip d) [''%Y-%m-%d'', ''%d/%m/%Y'', ''%Y/%m/%d''] = Inl e"
    by (simp only: parse_date_def option.case)
  from try_formats_error [OF this] Some show ?thesis by simp
qed

lemma parse_row_Inl:
  "parse_row i r = Inl e \<Longrightarrow>
   (e = RowParseError i AttributeError \<and> csv_row.Date r = None) \<or>
   (\<exists>d. e = RowParseError i (DateValueError d) \<and> csv_row.Date r = Some d) \<or>
   (\<exists>t. e = RowParseError i (FloatValueError t)) \<or>
   e = RowNaNError i r"
  by (auto simp: parse_row_def split: sum.splits if_splits
           dest!: parse_date_error to_float_error)



lemma read_evm_csv_Inr:
  assumes "read_evm_csv rs = Inr rows"
  shows "length rows = length rs \<and> (\<forall>j<length rs. \<not> isl (parse_row (j + 2) (rs ! j))) \<and>
         (\<forall>row\<in>set rows. \<exists>j<length rs. parse_row (j + 2) (rs ! j) = Inr row)"
proof -
  from assms obtain rows0 where r0: "read_rows 2 rs [] = Inr rows0"
    and srt: "rows = sort_key date_key rows0"
    by (cases "read_rows 2 rs []") (auto simp: read_evm_csv_def)
  from read_rows_Inr [OF r0] have len: "length rows0 = length rs"
    and each: "\<forall>j<length rs. parse_row (2 + j) (rs ! j) = Inr (rows0 ! j)"
    by auto
  have a: "length rows = length rs" using srt len by simp
  have b: "\<forall>j<length rs. \<not> isl (parse_row (j + 2) (rs ! j))"
    using each by (simp add: add.commute)
  have c: "\<forall>row\<in>set rows. \<exists>j<length rs. parse_row (j + 2) (rs ! j) = Inr row"
  proof
    fix row assume "row \<in> set rows"
    then have "row \<in> set rows0" using srt by simp
    then obtain j where "j < length rows0" "rows0 ! j = row" by (auto simp: in_set_conv_nth)
    with each len show "\<exists>j<length rs. parse_row (j + 2) (rs ! j) = Inr row"
      by (auto simp: add.commute)
  qed
  from a b c show ?thesis by blast
qed

lemma commas_become_dots:
  "CHR ''.'' \<notin> set s \<Longrightarrow>
   length (filter (\<lambda>c. c = CHR ''.'') (map (\<lambda>c. if c = CHR '','' then CHR ''.'' else c) s))
   = length (filter (\<lambda>c. c = CHR '','') s)"
proof (induction s)
  case Nil
  show ?case by simp
next
  case (Cons a s)
  then have "a \<noteq> CHR ''.''" and "CHR ''.'' \<notin> set s" by auto
  with Cons.IH show ?case by simp
qed

lemma read_evm_csv_member_fail:
  assumes "r \<in> set rs" and "\<And>i. isl (parse_row i r)"
  shows "isl (read_evm_csv rs)"
proof -
  from read_rows_member_fail [OF assms, of 2 "[]"] obtain e where "read_rows 2 rs [] = Inl e"
    by (cases "read_rows 2 rs []") auto
  then show ?thesis by (simp add: read_evm_csv_def)
qed

lemma many_commas_error:
  assumes h: "2 \<le> length (filter (\<lambda>c. c = CHR '','') x)" "CHR ''.'' \<notin> set x"
  shows "to_float (Some x) =
           Inl (FloatValueError (map (\<lambda>c. if c = CHR '','' then CHR ''.'' else c) (strip x)))"
proof -
  let ?s = "strip x" and ?f = "\<lambda>c. if c = CHR '','' then CHR ''.'' else c"
  have commas: "length (filter (\<lambda>c. c = CHR '','') ?s) = length (filter (\<lambda>c. c = CHR '','') x)"
    by (rule filter_strip) (simp add: is_space_def)
  with h have two: "2 \<le> length (filter (\<lambda>c. c = CHR '','') ?s)" by simp
  then have "filter (\<lambda>c. c = CHR '','') ?s \<noteq> []" by auto
  then have mem: "CHR '','' \<in> set ?s" by (simp add: filter_empty_conv)
  from h set_strip [of x] have nodot: "CHR ''.'' \<notin> set ?s" by blast
  from mem have ne: "?s \<noteq> []" by auto
  from mem nodot ne have tf: "to_float (Some x) = py_float (map ?f ?s)"
    by (simp add: to_float_cases Let_def)
  from commas_become_dots [OF nodot] two
  have "\<not> length (filter (\<lambda>c. c = CHR ''.'') (map ?f ?s)) \<le> 1" by simp
  with py_float_dots [of "map ?f ?s"] have "\<And>v. py_float (map ?f ?s) \<noteq> Inr v" by blast
  then obtain e where e: "py_float (map ?f ?s) = Inl e" by (cases "py_float (map ?f ?s)") auto
  from py_float_error [OF e] e tf show ?thesis by simp
qed

lemma many_commas_row:
  assumes h: "2 \<le> length (filter (\<lambda>c. c = CHR '','') x)" "CHR ''.'' \<notin> set x"
    and r: "PV r = Some x \<or> EV r = Some x \<or> AC r = Some x"
  shows "isl (parse_row i r)"
proof -
  from many_commas_error [OF h] have "isl (to_float (Some x))" by simp
  with r have "isl (to_float (PV r)) \<or> isl (to_float (EV r)) \<or> isl (to_float (AC r))" by metis
  then show ?thesis unfolding parse_row_isl by blast
qed

lemmas row_eval = read_evm_csv_def parse_row_def float_eval date_eval isnan_def

text \<open>
  Claim C3. With \<open>s\<close> the text without its surrounding whitespace: when \<open>s\<close> holds a
  comma and a period, the separator that comes last is the decimal point and every
  occurrence of the other one is removed; when it holds commas only, every comma becomes
  a decimal point; when it holds no comma, \<open>s\<close> itself is converted. So "12,345.67" and
  "12.345,67" are 12345.67 and "1234,56" is 1234.56. The empty text is not-a-number, and
  a row with an empty amount is rejected.
\<close>

theorem to_float_separators:
  "(strip x = [] \<longrightarrow> to_float (Some x) = Inr NaN)
   \<and> (CHR '','' \<in> set (strip x) \<and> CHR ''.'' \<in> set (strip x) \<and>
        last (filter (\<lambda>c. c = CHR '','' \<or> c = CHR ''.'') (strip x)) = CHR '','' \<longrightarrow>
        to_float (Some x) =
          py_float (map (\<lambda>c. if c = CHR '','' then CHR ''.'' else c)
                        (filter (\<lambda>c. c \<noteq> CHR ''.'') (strip x))))
   \<and> (CHR '','' \<in> set (strip x) \<and> CHR ''.'' \<in> set (strip x) \<and>
        last (filter (\<lambda>c. c = CHR '','' \<or> c = CHR ''.'') (strip x)) = CHR ''.'' \<longrightarrow>
        to_float (Some x) = py_float (filter (\<lambda>c. c \<noteq> CHR '','') (strip x)))
   \<and> (CHR '','' \<in> set (strip x) \<and> CHR ''.'' \<notin> set (strip x) \<longrightarrow>
        to_float (Some x) = py_float (map (\<lambda>c. if c = CHR '','' then CHR ''.'' else c) (strip x)))
   \<and> (strip x \<noteq> [] \<and> CHR '','' \<notin> set (strip x) \<longrightarrow> to_float (Some x) = py_float (strip x))
   \<and> to_float (Some ''12,345.67'') = Inr (Fin 12345.67)
   \<and> to_float (Some ''12.345,67'') = Inr (Fin 12345.67)
   \<and> to_float (Some ''1234,56'') = Inr (Fin 1234.56)
   \<and> to_float (Some '''') = Inr NaN
   \<and> (\<forall>i (r::csv_row). strip (py_str (PV r)) = [] \<or> strip (py_str (EV r)) = [] \<or>
             strip (py_str (AC r)) = [] \<longrightarrow> isl (parse_row i r))"
proof (intro conjI impI allI)
  assume "strip x = []"
  then show "to_float (Some x) = Inr NaN" by (simp add: to_float_cases)
next
  assume "CHR '','' \<in> set (strip x) \<and> CHR ''.'' \<in> set (strip x) \<and>
        last (filter (\<lambda>c. c = CHR '','' \<or> c = CHR ''.'') (strip x)) = CHR '',''"
  then show "to_float (Some x) =
          py_float (map (\<lambda>c. if c = CHR '','' then CHR ''.'' else c)
                        (filter (\<lambda>c. c \<noteq> CHR ''.'') (strip x)))"
    by (auto simp: to_float_cases Let_def)
next
  assume "CHR '','' \<in> set (strip x) \<and> CHR ''.'' \<in> set (strip x) \<and>
        last (filter (\<lambda>c. c = CHR '','' \<or> c = CHR ''.'') (strip x)) = CHR ''.''"
  then show "to_float (Some x) = py_float (filter (\<lambda>c. c \<noteq> CHR '','') (strip x))"
    by (auto simp: to_float_cases Let_def)
next
  assume "CHR '','' \<in> set (strip x) \<and> CHR ''.'' \<notin> set (strip x)"
  then show "to_float (Some x) = py_float (map (\<lambda>c. if c = CHR '','' then CHR ''.'' else c) (strip x))"
    by (auto simp: to_float_cases Let_def)
next
  assume "strip x \<noteq> [] \<and> CHR '','' \<notin> set (strip x)"
  then show "to_float (Some x) = py_float (strip x)"
    by (auto simp: to_float_cases Let_def)
next
  show "to_float (Some ''12,345.67'') = Inr (Fin 12345.67)" by (simp add: float_eval)
  show "to_float (Some ''12.345,67'') = Inr (Fin 12345.67)" by (simp add: float_eval)
  show "to_float (Some ''1234,56'') = Inr (Fin 1234.56)" by (simp add: float_eval)
  show "to_float (Some '''') = Inr NaN" by (simp add: float_eval)
next
  fix i and r :: csv_row
  assume "strip (py_str (PV r)) = [] \<or> strip (py_str (EV r)) = [] \<or> strip (py_str (AC r)) = []"
  then have "to_float (PV r) = Inr NaN \<or> to_float (EV r) = Inr NaN \<or> to_float (AC r) = Inr NaN"
    using to_float_empty by blast
  then show "isl (parse_row i r)" by (simp add: parse_row_isl)
qed

theorem to_float_separators_witness:
  "strip '' '' = [] \<and> to_float (Some '' '') = Inr NaN
   \<and> to_float (Some ''12.345,67'') = py_float ''12345.67''
   \<and> to_float (Some ''12,345.67'') = py_float ''12345.67''
   \<and> to_float (Some ''1234,56'') = py_float ''1234.56''
   \<and> to_float (Some '' 1234.56 '') = py_float ''1234.56''
   \<and> isl (parse_row 2 \<lparr>csv_row.Date = Some ''2024-01-01'', PV = Some ''1'', EV = Some '''',
                          AC = Some ''1''\<rparr>)"
  using to_float_separators [of "'' ''"] to_float_separators [of "''12.345,67''"]
    to_float_separators [of "''12,345.67''"] to_float_separators [of "''1234,56''"]
    to_float_separators [of "'' 1234.56 ''"]
  by (simp add: strip_def is_space_def py_str_def)

text \<open>
  Claim C4. The date parser tries \<^verbatim>\<open>%Y-%m-%d\<close>, then \<^verbatim>\<open>%d/%m/%Y\<close>, then
  \<^verbatim>\<open>%Y/%m/%d\<close>, on the text without its surrounding whitespace, and returns the
  result of the first format that succeeds; when the three fail, the error carries the
  text as it was given. "03/04/2024" fails the first format and is the third of April 2024
  by the second.
\<close>

theorem parse_date_priority:
  "parse_date (Some d) =
     (case strptime (strip d) ''%Y-%m-%d'' of
        Inr dt \<Rightarrow> Inr dt
      | Inl e1 \<Rightarrow>
          (case strptime (strip d) ''%d/%m/%Y'' of
             Inr dt \<Rightarrow> Inr dt
           | Inl e2 \<Rightarrow>
               (case strptime (strip d) ''%Y/%m/%d'' of
                  Inr dt \<Rightarrow> Inr dt
                | Inl e3 \<Rightarrow> Inl (DateValueError d))))
   \<and> directives ''%Y-%m-%d'' = [DirY, Lit (CHR ''-''), DirM, Lit (CHR ''-''), DirD]
   \<and> directives ''%d/%m/%Y'' = [DirD, Lit (CHR ''/''), DirM, Lit (CHR ''/''), DirY]
   \<and> directives ''%Y/%m/%d'' = [DirY, Lit (CHR ''/''), DirM, Lit (CHR ''/''), DirD]
   \<and> strptime ''03/04/2024'' ''%Y-%m-%d'' = Inl StrptimeError
   \<and> parse_date (Some ''03/04/2024'') = Inr \<lparr>year = 2024, month = 4, day = 3\<rparr>"
proof (intro conjI)
  show "parse_date (Some d) =
     (case strptime (strip d) ''%Y-%m-%d'' of
        Inr dt \<Rightarrow> Inr dt
      | Inl e1 \<Rightarrow>
          (case strptime (strip d) ''%d/%m/%Y'' of
             Inr dt \<Rightarrow> Inr dt
           | Inl e2 \<Rightarrow>
               (case strptime (strip d) ''%Y/%m/%d'' of
                  Inr dt \<Rightarrow> Inr dt
                | Inl e3 \<Rightarrow> Inl (DateValueError d))))"
    by (simp add: parse_date_def split: sum.splits)
  show "directives ''%Y-%m-%d'' = [DirY, Lit (CHR ''-''), DirM, Lit (CHR ''-''), DirD]" by simp
  show "directives ''%d/%m/%Y'' = [DirD, Lit (CHR ''/''), DirM, Lit (CHR ''/''), DirY]" by simp
  show "directives ''%Y/%m/%d'' = [DirY, Lit (CHR ''/''), DirM, Lit (CHR ''/''), DirD]" by simp
  show "strptime ''03/04/2024'' ''%Y-%m-%d'' = Inl StrptimeError" by (simp add: date_eval)
  show "parse_date (Some ''03/04/2024'') = Inr \<lparr>year = 2024, month = 4, day = 3\<rparr>"
    by (simp add: date_eval)
qed

theorem parse_date_priority_witness:
  "parse_date (Some ''2024/02/29'') = Inr \<lparr>year = 2024, month = 2, day = 29\<rparr>
   \<and> parse_date (Some ''2024-02-30'') = Inl (DateValueError ''2024-02-30'')"
  using parse_date_priority [of "''2024/02/29''"] parse_date_priority [of "''2024-02-30''"]
  by (simp add: date_eval)

text \<open>
  Claim C10. A text with two or more commas and no period is not converted: each comma
  becomes a decimal point and the conversion raises, so every row with such an amount is
  rejected, and so is every run with such a row.
\<close>

theorem grouped_commas_rejected:
  "(2 \<le> length (filter (\<lambda>c. c = CHR '','') x) \<and> CHR ''.'' \<notin> set x \<longrightarrow>
      to_float (Some x) =
        Inl (FloatValueError (map (\<lambda>c. if c = CHR '','' then CHR ''.'' else c) (strip x)))
      \<and> (\<forall>i (r::csv_row). PV r = Some x \<or> EV r = Some x \<or> AC r = Some x \<longrightarrow> isl (parse_row i r))
      \<and> (\<forall>rs. (\<exists>r\<in>set rs. PV r = Some x \<or> EV r = Some x \<or> AC r = Some x) \<longrightarrow>
                isl (read_evm_csv rs)))
   \<and> to_float (Some ''1,234,567'') = Inl (FloatValueError ''1.234.567'')"
proof (intro conjI impI allI)
  assume "2 \<le> length (filter (\<lambda>c. c = CHR '','') x) \<and> CHR ''.'' \<notin> set x"
  then show "to_float (Some x) =
        Inl (FloatValueError (map (\<lambda>c. if c = CHR '','' then CHR ''.'' else c) (strip x)))"
    using many_commas_error by blast
next
  fix i and r :: csv_row
  assume "2 \<le> length (filter (\<lambda>c. c = CHR '','') x) \<and> CHR ''.'' \<notin> set x"
    and "PV r = Some x \<or> EV r = Some x \<or> AC r = Some x"
  then show "isl (parse_row i r)" using many_commas_row by blast
next
  fix rs :: "csv_row list"
  assume h: "2 \<le> length (filter (\<lambda>c. c = CHR '','') x) \<and> CHR ''.'' \<notin> set x"
    and "\<exists>r\<in>set rs. PV r = Some x \<or> EV r = Some x \<or> AC r = Some x"
  then obtain r where r: "r \<in> set rs" "PV r = Some x \<or> EV r = Some x \<or> AC r = Some x" by blast
  from h r(2) have "\<And>i. isl (parse_row i r)" using many_commas_row by blast
  with r(1) show "isl (read_evm_csv rs)" by (rule read_evm_csv_member_fail)
next
  show "to_float (Some ''1,234,567'') = Inl (FloatValueError ''1.234.567'')"
    by (simp add: float_eval)
qed

theorem grouped_commas_rejected_witness:
  "to_float (Some '' 1,234,567'') = Inl (FloatValueError ''1.234.567'')
   \<and> isl (parse_row 2 \<lparr>csv_row.Date = Some ''2024-01-01'', PV = Some ''1'',
                          EV = Some '' 1,234,567'', AC = Some ''1''\<rparr>)
   \<and> isl (read_evm_csv [\<lparr>csv_row.Date = Some ''2024-01-01'', PV = Some ''1'',
                            EV = Some '' 1,234,567'', AC = Some ''1''\<rparr>])"
  using grouped_commas_rejected [of "'' 1,234,567''"]
  by (simp add: strip_def is_space_def)

text \<open>
  Claim C8, as the specification states it, says every amount of a constructed row is
  finite. The reader only rejects not-a-number: the text "inf" is converted to the
  positive infinity and the row is accepted.
\<close>

theorem infinite_amount_accepted:
  "read_evm_csv [\<lparr>csv_row.Date = Some ''2024-01-01'', PV = Some ''inf'', EV = Some ''1'',
                   AC = Some ''1''\<rparr>]
   = Inr [\<lparr>date = \<lparr>year = 2024, month = 1, day = 1\<rparr>, pv = PInf, ev = Fin 1, ac = Fin 1\<rparr>]"
  by (simp add: row_eval)

text \<open>
  Claim C8, amended. The three amounts of a constructed row are the values the three
  texts convert to, unchanged, and none of them is not-a-number (an infinity is
  accepted); a row one of whose amounts converts to not-a-number is rejected with an
  error carrying its number; a run that returns rows returns one per input row, all with
  amounts that are not not-a-number.
\<close>

theorem parsed_amounts_not_nan:
  "(parse_row i r = Inr row \<longrightarrow>
      to_float (PV r) = Inr (pv row) \<and> to_float (EV r) = Inr (ev row) \<and>
      to_float (AC r) = Inr (ac row) \<and>
      \<not> isnan (pv row) \<and> \<not> isnan (ev row) \<and> \<not> isnan (ac row))
   \<and> (to_float (PV r) = Inr NaN \<or> to_float (EV r) = Inr NaN \<or> to_float (AC r) = Inr NaN \<longrightarrow>
        (\<exists>e. parse_row i r = Inl e \<and> ((\<exists>c. e = RowParseError i c) \<or> e = RowNaNError i r)))
   \<and> (read_evm_csv rs = Inr rows \<longrightarrow>
        length rows = length rs \<and>
        (\<forall>x\<in>set rows. \<not> isnan (pv x) \<and> \<not> isnan (ev x) \<and> \<not> isnan (ac x)))"
proof (intro conjI impI)
  assume "parse_row i r = Inr row"
  from parse_row_Inr [OF this]
  show "to_float (PV r) = Inr (pv row)" "to_float (EV r) = Inr (ev row)"
    "to_float (AC r) = Inr (ac row)" "\<not> isnan (pv row)" "\<not> isnan (ev row)" "\<not> isnan (ac row)"
    by simp_all
next
  assume "to_float (PV r) = Inr NaN \<or> to_float (EV r) = Inr NaN \<or> to_float (AC r) = Inr NaN"
  then have "isl (parse_row i r)" unfolding parse_row_isl by blast
  then obtain e where e: "parse_row i r = Inl e" by (cases "parse_row i r") auto
  from parse_row_Inl [OF e] e
  show "\<exists>e. parse_row i r = Inl e \<and> ((\<exists>c. e = RowParseError i c) \<or> e = RowNaNError i r)"
    by blast
next
  assume ok: "read_evm_csv rs = Inr rows"
  from read_evm_csv_Inr [OF ok] show "length rows = length rs" by blast
  show "\<forall>x\<in>set rows. \<not> isnan (pv x) \<and> \<not> isnan (ev x) \<and> \<not> isnan (ac x)"
  proof
    fix x assume "x \<in> set rows"
    with read_evm_csv_Inr [OF ok] obtain j where "parse_row (j + 2) (rs ! j) = Inr x" by blast
    from parse_row_Inr [OF this] show "\<not> isnan (pv x) \<and> \<not> isnan (ev x) \<and> \<not> isnan (ac x)"
      by blast
  qed
qed

theorem parsed_amounts_not_nan_witness:
  "parse_row 2 \<lparr>csv_row.Date = Some ''2024-01-01'', PV = Some ''1.000,5'', EV = Some ''inf'',
                AC = Some ''2''\<rparr>
     = Inr \<lparr>date = \<lparr>year = 2024, month = 1, day = 1\<rparr>, pv = Fin 1000.5, ev = PInf, ac = Fin 2\<rparr>
   \<and> to_float (Some ''nan'') = Inr NaN
   \<and> parse_row 3 \<lparr>csv_row.Date = Some ''2024-01-01'', PV = Some ''1'', EV = Some ''nan'',
                  AC = Some ''2''\<rparr>
     = Inl (RowNaNError 3 \<lparr>csv_row.Date = Some ''2024-01-01'', PV = Some ''1'', EV = Some ''nan'',
                            AC = Some ''2''\<rparr>)
   \<and> (\<exists>rows. read_evm_csv [\<lparr>csv_row.Date = Some ''2024-01-01'', PV = Some ''1.000,5'',
                              EV = Some ''inf'', AC = Some ''2''\<rparr>] = Inr rows \<and>
          length rows = 1 \<and> \<not> isnan (pv (hd rows)) \<and> \<not> isnan (ev (hd rows)) \<and>
          \<not> isnan (ac (hd rows)))"
  using parsed_amounts_not_nan
    [of 2 "\<lparr>csv_row.Date = Some ''2024-01-01'', PV = Some ''1.000,5'', EV = Some ''inf'',
             AC = Some ''2''\<rparr>"
        "\<lparr>date = \<lparr>year = 2024, month = 1, day = 1\<rparr>, pv = Fin 1000.5, ev = PInf, ac = Fin 2\<rparr>"
        "[\<lparr>csv_row.Date = Some ''2024-01-01'', PV = Some ''1.000,5'', EV = Some ''inf'',
             AC = Some ''2''\<rparr>]"
        "[\<lparr>date = \<lparr>year = 2024, month = 1, day = 1\<rparr>, pv = Fin 1000.5, ev = PInf, ac = Fin 2\<rparr>]"]
   parsed_amounts_not_nan
    [of 3 "\<lparr>csv_row.Date = Some ''2024-01-01'', PV = Some ''1'', EV = Some ''nan'',
                  AC = Some ''2''\<rparr>"]
  by (simp add: row_eval)




end
